theory Spec2Isabelle
  imports Complex_Main "HOL-Library.Finite_Map" "HOL-Library.Sublist"
begin

section \<open>Values and objects\<close>

text \<open>
  The JavaScript values that reach the schema code: \<open>undefined\<close>, \<open>null\<close>, strings,
  numbers, booleans and plain objects. An object is a finite map from property names to
  values; a property that is absent and a property holding \<open>undefined\<close> are different
  objects that every read below treats alike. No arithmetic is done on numbers anywhere
  in the code modelled: they are compared and type-tested, and one error text writes a
  number out.
\<close>

datatype jsval =
    Undefined
  | Null
  | Str string
  | Num real
  | Bool bool
  | Obj "(string, jsval) fmap"

type_synonym obj = "(string, jsval) fmap"

text \<open>\<open>props[key]\<close>: reading a property of an object, \<open>undefined\<close> when it is absent.\<close>

definition readProp :: "obj \<Rightarrow> string \<Rightarrow> jsval" where
  "readProp m k = (case fmlookup m k of None \<Rightarrow> Undefined | Some v \<Rightarrow> v)"

section \<open>Field definitions (src/types/field.types.ts, src/Schema)\<close>

datatype FieldIdentifier =
    FI_string
  | FI_number
  | FI_boolean
  | FI_enum
  | FI_indexed

text \<open>
  A field definition object. \<open>hasDefault\<close> is the property \<open>_hasDefault\<close>, which is
  absent (\<open>None\<close>) on the object a field function returns when it is called with no
  options. \<open>default_val\<close> is the property \<open>default\<close>, \<open>Undefined\<close> when absent.
  \<open>vals\<close> (declared for enum fields by the type \<open>FieldDefinition\<close>) and \<open>indexed\<close>
  (declared by \<open>IndexedFieldDefinition\<close>) are \<open>None\<close> when the object has no such
  property.
\<close>

datatype FieldDefinition =
  FieldDefinition
    (fieldIdentifier: FieldIdentifier)
    (required: bool)
    (hasDefault: "bool option")
    (default_val: jsval)
    (vals: "jsval list option")
    (indexed: "FieldDefinition option")

text \<open>
  The options bag of a field function: \<open>{ default?, required?, optional? }\<close>. An absent
  \<open>default\<close> is \<open>Undefined\<close> (the code tests \<open>typeof defaultVal !== 'undefined'\<close>), an
  absent flag is \<open>None\<close>. The interface \<open>FieldOptions\<close> declares no other property, so
  the rest \<open>...rest\<close> spread into the result is empty.
\<close>

record FieldOptions =
  default_opt :: jsval
  required_opt :: "bool option"
  optional_opt :: "bool option"

text \<open>\<open>booleanFn(opts?)\<close>; the argument is \<open>None\<close> when the function is called without one.\<close>

fun booleanFn :: "FieldOptions option \<Rightarrow> FieldDefinition" where
  "booleanFn None = FieldDefinition FI_boolean True None Undefined None None"
| "booleanFn (Some opts) =
     (let defaultVal = default_opt opts;
          has = (defaultVal \<noteq> Undefined);
          dflt = (if defaultVal \<noteq> Undefined then defaultVal else Undefined);
          req = (if optional_opt opts = Some True \<or> required_opt opts = Some False
                 then False else True)
      in FieldDefinition FI_boolean req (Some has) dflt None None)"

text \<open>
  \<open>enumr(vals, opts?)\<close> of src/Schema/enum.schema.ts. The body never reads \<open>vals\<close>: the
  object it returns has no \<open>vals\<close> property, and the default is not compared with it.
\<close>

fun enumr :: "jsval list \<Rightarrow> FieldOptions option \<Rightarrow> FieldDefinition" where
  "enumr vs None = FieldDefinition FI_enum True None Undefined None None"
| "enumr vs (Some opts) =
     (let defaultVal = default_opt opts;
          has = (defaultVal \<noteq> Undefined);
          dflt = (if defaultVal \<noteq> Undefined then defaultVal else Undefined);
          req = (if optional_opt opts = Some True \<or> required_opt opts = Some False
                 then False else True)
      in FieldDefinition FI_enum req (Some has) dflt None None)"

text \<open>
  Modelled from the spec: the field functions for numbers and strings (\<open>Schema.number\<close>,
  \<open>Schema.string\<close>) are not among the sources; section 4.1 gives one resolution rule
  for every primitive type tag, the one \<open>booleanFn\<close> implements, so they are
  \<open>booleanFn\<close> with their own identifier. \<open>Schema.number\<close> used without a call is the
  function carrying the properties of \<open>numberFn()\<close>, that is \<open>numberFn None\<close>.
\<close>

fun numberFn :: "FieldOptions option \<Rightarrow> FieldDefinition" where
  "numberFn None = FieldDefinition FI_number True None Undefined None None"
| "numberFn (Some opts) =
     (let defaultVal = default_opt opts;
          has = (defaultVal \<noteq> Undefined);
          dflt = (if defaultVal \<noteq> Undefined then defaultVal else Undefined);
          req = (if optional_opt opts = Some True \<or> required_opt opts = Some False
                 then False else True)
      in FieldDefinition FI_number req (Some has) dflt None None)"

text \<open>
  Modelled from the spec: \<open>Schema.string\<close>, absent from the sources like
  \<open>Schema.number\<close>; the same rule of section 4.1 under the string identifier.
\<close>

fun stringFn :: "FieldOptions option \<Rightarrow> FieldDefinition" where
  "stringFn None = FieldDefinition FI_string True None Undefined None None"
| "stringFn (Some opts) =
     (let defaultVal = default_opt opts;
          has = (defaultVal \<noteq> Undefined);
          dflt = (if defaultVal \<noteq> Undefined then defaultVal else Undefined);
          req = (if optional_opt opts = Some True \<or> required_opt opts = Some False
                 then False else True)
      in FieldDefinition FI_string req (Some has) dflt None None)"

section \<open>Schemas\<close>

text \<open>
  A record schema maps field names to field definitions or to nested schemas. The keys
  of a node are kept in declaration order, the order \<open>Object.keys\<close> walks them in. The
  constructor tells a field definition from a nested schema by its \<open>_fieldIdentifier\<close>
  property (\<open>schemaFieldIdentified\<close>), which every field definition has and which is
  not a field name of a nested schema.
\<close>

datatype schema =
    Field FieldDefinition
  | Node "(string \<times> schema) list"

type_synonym RecordSchema = "(string \<times> schema) list"

text \<open>
  \<open>get(schema, path)\<close> on the schema: the field definition or nested schema found by
  following the keys, \<open>None\<close> when the path leaves the schema.
\<close>

fun schemaAt :: "schema \<Rightarrow> string list \<Rightarrow> schema option"
  and schemaIn :: "(string \<times> schema) list \<Rightarrow> string \<Rightarrow> string list \<Rightarrow> schema option" where
  "schemaAt s [] = Some s"
| "schemaAt (Field fd) (k # ks) = None"
| "schemaAt (Node children) (k # ks) = schemaIn children k ks"
| "schemaIn [] k ks = None"
| "schemaIn ((k', s) # rest) k ks = (if k' = k then schemaAt s ks else schemaIn rest k ks)"

text \<open>
  The keys of a JavaScript object are pairwise different; a schema written as a list of
  keys and values is the schema of some object when this holds at every node.
\<close>

fun distinctKeys :: "schema \<Rightarrow> bool"
  and distinctChildKeys :: "(string \<times> schema) list \<Rightarrow> bool" where
  "distinctKeys (Field fd) = True"
| "distinctKeys (Node children) = distinctChildKeys children"
| "distinctChildKeys [] = True"
| "distinctChildKeys ((k, s) # rest) =
     (k \<notin> fst ` set rest \<and> distinctKeys s \<and> distinctChildKeys rest)"

section \<open>Reading and writing along a path (lodash)\<close>

text \<open>
  \<open>get(object, path)\<close> of lodash follows the keys while the value is neither \<open>null\<close>
  nor \<open>undefined\<close> and answers \<open>undefined\<close> when it stops early or when the path is
  empty. Keys are field names: they are no properties that strings, numbers, booleans
  or \<open>Object.prototype\<close> carry, so a read on a primitive value finds nothing.
\<close>

fun baseGet :: "jsval \<Rightarrow> string list \<Rightarrow> jsval" where
  "baseGet v [] = v"
| "baseGet (Obj m) (k # ks) =
     (case fmlookup m k of None \<Rightarrow> Undefined | Some w \<Rightarrow> baseGet w ks)"
| "baseGet _ (k # ks) = Undefined"

definition get :: "jsval \<Rightarrow> string list \<Rightarrow> jsval" where
  "get v path = (if path = [] then Undefined else baseGet v path)"

text \<open>
  \<open>set(object, path, value)\<close> of lodash on an object: every value on the way that is
  not an object is replaced by a fresh empty object (field names are no array indices),
  the last key receives the value. The code mutates \<open>this\<close>; the model returns the new
  object.
\<close>

fun baseSet :: "obj \<Rightarrow> string list \<Rightarrow> jsval \<Rightarrow> obj" where
  "baseSet m [] v = m"
| "baseSet m [k] v = fmupd k v m"
| "baseSet m (k # k' # ks) v =
     fmupd k (Obj (baseSet (case fmlookup m k of Some (Obj c) \<Rightarrow> c | _ \<Rightarrow> fmempty) (k' # ks) v)) m"

section \<open>Errors\<close>

text \<open>
  Modelled from the spec: the error classes are not among the sources. Section 7 names
  the reasons a field can fail for, each with the path of the field:
  \<open>MissingRequiredField(path)\<close> and \<open>WrongType(path, expected, actual)\<close>.
\<close>

datatype reason =
    MissingRequiredField "string list"
  | WrongType "string list" FieldIdentifier jsval

text \<open>
  Modelled from the spec: what a \<open>throw\<close> carries. \<open>FieldError\<close> is the low-level
  error of the leaf check; \<open>ActiveClassError what cause\<close> is the user-facing error that
  the constructor makes of it with \<open>ActiveClassError.from(err, { what })\<close>.
  \<open>TypeError v\<close> is the language's own exception, raised on the value \<open>v\<close> when a
  property of \<open>null\<close> or \<open>undefined\<close> is read or when an object cannot be converted
  to a string.
\<close>

datatype thrown =
    FieldError reason
  | ActiveClassError string thrown
  | TypeError jsval

text \<open>
  Modelled from the spec: the message texts are not among the sources. Section 7 asks
  for messages that name the field's path and the constraint violated; the texts are the
  ones the tests of the constructor expect (\<open>The required property 'floors' is
  missing\<close>, \<open>The property 'floors' is of the wrong type\<close>), a nested path written
  with dots. The text of a \<open>TypeError\<close> is the engine's and has no equation.
\<close>

fun pathText :: "string list \<Rightarrow> string" where
  "pathText [] = []"
| "pathText [k] = k"
| "pathText (k # ks) = k @ ''.'' @ pathText ks"

fun reasonMessage :: "reason \<Rightarrow> string" where
  "reasonMessage (MissingRequiredField path) =
     ''The required property '' @ [CHR 0x27] @ pathText path @ [CHR 0x27] @ '' is missing''"
| "reasonMessage (WrongType path expected actual) =
     ''The property '' @ [CHR 0x27] @ pathText path @ [CHR 0x27] @ '' is of the wrong type''"

fun message :: "thrown \<Rightarrow> string" where
  "message (FieldError r) = reasonMessage r"
| "message (ActiveClassError what cause) = what @ ''. '' @ message cause"

text \<open>
  Modelled from the spec: \<open>ActiveClassError.from\<close> is not among the sources. Section 7
  asks for one user-facing error that carries the owning type's name and the field-level
  reason; its message is \<open>what\<close>, a full stop and the message of the cause, as in
  \<open>Could not construct Lightbulb. The required property 'floors' is missing\<close>.
\<close>

definition ActiveClassError_from :: "thrown \<Rightarrow> string \<Rightarrow> thrown" where
  "ActiveClassError_from err what = ActiveClassError what err"

section \<open>The leaf check\<close>

text \<open>
  Modelled from the spec: \<open>checkPrimitive\<close> is not among the sources. Section 4.3: a
  value matches its kind by a primitive type test for string, number and boolean, by
  membership in the allowed values for an enum, and, for an indexed field, when it is a
  map whose every value matches the value descriptor. A descriptor without allowed
  values has no member, one without value descriptor matches nothing.
\<close>

fun matchesKind :: "FieldDefinition \<Rightarrow> jsval \<Rightarrow> bool" where
  "matchesKind (FieldDefinition ident req has dflt allowed inner) v =
     (case ident of
        FI_string \<Rightarrow> (case v of Str _ \<Rightarrow> True | _ \<Rightarrow> False)
      | FI_number \<Rightarrow> (case v of Num _ \<Rightarrow> True | _ \<Rightarrow> False)
      | FI_boolean \<Rightarrow> (case v of Bool _ \<Rightarrow> True | _ \<Rightarrow> False)
      | FI_enum \<Rightarrow> (case allowed of None \<Rightarrow> False | Some l \<Rightarrow> v \<in> set l)
      | FI_indexed \<Rightarrow>
          (case (inner, v) of
             (Some d, Obj m) \<Rightarrow> fmpred (\<lambda>_ w. matchesKind d w) m
           | _ \<Rightarrow> False))"

text \<open>
  Modelled from the spec: the leaf branch of the algorithm of section 4.3, on the field
  definition found at \<open>schemaKeyPath\<close> and the record \<open>this\<close>. An absent or \<open>undefined\<close>
  value takes the default if there is one, fails as a missing required field if the
  field is required, and is left absent otherwise; a present value, \<open>null\<close> included,
  must match the kind or fails as a wrong type.
\<close>

definition checkPrimitive :: "FieldDefinition \<Rightarrow> string list \<Rightarrow> obj \<Rightarrow> thrown + obj" where
  "checkPrimitive fd schemaKeyPath this =
     (let v = get (Obj this) schemaKeyPath
      in if v = Undefined then
           (if hasDefault fd = Some True then Inr (baseSet this schemaKeyPath (default_val fd))
            else if required fd then Inl (FieldError (MissingRequiredField schemaKeyPath))
            else Inr this)
         else if matchesKind fd v then Inr this
         else Inl (FieldError (WrongType schemaKeyPath (fieldIdentifier fd) v)))"

text \<open>
  What a successful leaf check relates: the value \<open>v\<close> read before it and the value
  \<open>v'\<close> read after it, at the path of the field.
\<close>

definition leafOutcome :: "FieldDefinition \<Rightarrow> jsval \<Rightarrow> jsval \<Rightarrow> bool" where
  "leafOutcome fd v v' =
     (if v = Undefined
      then (if hasDefault fd = Some True then v' = default_val fd
            else \<not> required fd \<and> v' = Undefined)
      else matchesKind fd v \<and> v' = v)"

section \<open>The record constructor (makeActiveClassConstructor.ts)\<close>

text \<open>
  \<open>iterativelyCheckAgainstSchema(schemaKeyPath)\<close>. The source looks the schema up at
  the path on every call; the model carries the part of the schema found there. At a
  field definition it runs the leaf check; at a nested schema it sets the record's value
  to an empty object when it is \<open>undefined\<close> and checks every child key in order. A
  throw ends the walk: \<open>Inl\<close> is passed on.
\<close>

fun iterativelyCheckAgainstSchema :: "schema \<Rightarrow> string list \<Rightarrow> obj \<Rightarrow> thrown + obj"
  and checkChildKeys :: "(string \<times> schema) list \<Rightarrow> string list \<Rightarrow> obj \<Rightarrow> thrown + obj" where
  "iterativelyCheckAgainstSchema (Field fd) schemaKeyPath this =
     checkPrimitive fd schemaKeyPath this"
| "iterativelyCheckAgainstSchema (Node children) schemaKeyPath this =
     checkChildKeys children schemaKeyPath
       (if get (Obj this) schemaKeyPath = Undefined
        then baseSet this schemaKeyPath (Obj fmempty) else this)"
| "checkChildKeys [] schemaKeyPath this = Inr this"
| "checkChildKeys ((childKey, s) # rest) schemaKeyPath this =
     (case iterativelyCheckAgainstSchema s (schemaKeyPath @ [childKey]) this of
        Inl err \<Rightarrow> Inl err
      | Inr this' \<Rightarrow> checkChildKeys rest schemaKeyPath this')"

text \<open>
  \<open>checkAgainstSchema(initialiseFromProps)\<close>: for every key of the schema, in order,
  the record's property is first set from the props when \<open>initialiseFromProps\<close> holds,
  then checked.
\<close>

fun checkAgainstSchema :: "RecordSchema \<Rightarrow> obj \<Rightarrow> bool \<Rightarrow> obj \<Rightarrow> thrown + obj" where
  "checkAgainstSchema [] props initialiseFromProps record = Inr record"
| "checkAgainstSchema ((key, s) # rest) props initialiseFromProps record =
     (case iterativelyCheckAgainstSchema s [key]
             (if initialiseFromProps then fmupd key (readProp props key) record else record) of
        Inl err \<Rightarrow> Inl err
      | Inr record' \<Rightarrow> checkAgainstSchema rest props initialiseFromProps record')"

text \<open>
  The class: the function \<open>ActiveRecord\<close> with its \<open>name\<close> property and the schema of
  its closure. \<open>makeActiveClassConstructor(schema, className?)\<close> sets the name only when
  \<open>className\<close> is truthy, that is given and not the empty string; the function's own
  name is \<open>ActiveRecord\<close>. A subclass (\<open>class Lightbulb extends ...\<close>) is the same class
  under its own name.
\<close>

record ActiveClass =
  name :: string
  schemaOf :: RecordSchema

definition makeActiveClassConstructor :: "RecordSchema \<Rightarrow> string option \<Rightarrow> ActiveClass" where
  "makeActiveClassConstructor schema className =
     \<lparr> name = (case className of
                 None \<Rightarrow> ''ActiveRecord''
               | Some n \<Rightarrow> if n \<noteq> [] then n else ''ActiveRecord''),
       schemaOf = schema \<rparr>"

text \<open>
  The getter \<open>key\<close>: \<open>plural(this.name)\<close>. \<open>plural\<close> belongs to the package
  \<open>pluralize\<close>, not to this repository, and is a parameter.
\<close>

definition key :: "(string \<Rightarrow> string) \<Rightarrow> ActiveClass \<Rightarrow> string" where
  "key plural cls = plural (name cls)"

text \<open>
  \<open>Object.assign(this, props)\<close> assigns every own property of the props to the fresh
  record with \<open>this[key] = props[key]\<close>. For the key \<open>__proto__\<close> that assignment runs
  the setter of \<open>Object.prototype\<close>: it makes no own property; an object or \<open>null\<close>
  becomes the record's prototype, any other value is ignored. The prototype of the
  record is the class's at first.
\<close>

datatype prototype =
    ClassPrototype
  | PlainObject obj
  | NullPrototype

definition prototypeAfterAssign :: "jsval option \<Rightarrow> prototype" where
  "prototypeAfterAssign assigned =
     (case assigned of
        Some Null \<Rightarrow> NullPrototype
      | Some (Obj m) \<Rightarrow> PlainObject m
      | _ \<Rightarrow> ClassPrototype)"

text \<open>
  \<open>this.constructor\<close>: the record's own property \<open>constructor\<close> when it has one, else
  the one its prototype gives: the class under the class's prototype, nothing under no
  prototype; under a plain object its own \<open>constructor\<close>, else the function \<open>Object\<close>
  that \<open>Object.prototype\<close> gives. A function is known by its name.
\<close>

datatype propertyValue =
    FunctionNamed string
  | Plain jsval

definition thisConstructor :: "string \<Rightarrow> jsval option \<Rightarrow> prototype \<Rightarrow> propertyValue" where
  "thisConstructor className own proto =
     (case own of
        Some v \<Rightarrow> Plain v
      | None \<Rightarrow>
          (case proto of
             ClassPrototype \<Rightarrow> FunctionNamed className
           | NullPrototype \<Rightarrow> Plain Undefined
           | PlainObject m \<Rightarrow>
               (case fmlookup m ''constructor'' of
                  Some v \<Rightarrow> Plain v
                | None \<Rightarrow> FunctionNamed ''Object'')))"

text \<open>
  \<open>.name\<close> of that value: a \<open>TypeError\<close> on \<open>null\<close> and \<open>undefined\<close>, the name of a
  function, the property \<open>name\<close> of a plain object, and \<open>undefined\<close> on a string, a
  number or a boolean, whose prototypes have no \<open>name\<close>.
\<close>

fun nameOf :: "propertyValue \<Rightarrow> thrown + jsval" where
  "nameOf (FunctionNamed n) = Inr (Str n)"
| "nameOf (Plain Undefined) = Inl (TypeError Undefined)"
| "nameOf (Plain Null) = Inl (TypeError Null)"
| "nameOf (Plain (Obj m)) = Inr (readProp m ''name'')"
| "nameOf (Plain v) = Inr Undefined"

text \<open>
  The text of a number in a template literal: the decimal digits of an integer below
  \<open>10^21\<close> in absolute value. The text of any other number (a fraction, the exponent
  notation) follows the floating-point value and is left unspecified.
\<close>

function natText :: "nat \<Rightarrow> string" where
  "natText n =
     (if n < 10 then [''0123456789'' ! n]
      else natText (n div 10) @ [''0123456789'' ! (n mod 10)])"
  by pat_completeness auto
termination
  by (relation "measure (\<lambda>n. n)") auto

definition numberText :: "real \<Rightarrow> string" where
  "numberText x =
     (if x \<in> \<int> \<and> \<bar>x\<bar> < 10 ^ 21
      then (if x < 0 then ''-'' @ natText (nat \<lfloor>- x\<rfloor>) else natText (nat \<lfloor>x\<rfloor>))
      else undefined)"

text \<open>
  \<open>`${v}`\<close>: the conversion of a value to a string. A plain object converts through
  \<open>toString\<close>; an own property \<open>toString\<close> of a plain object is no function, and the
  \<open>valueOf\<close> that is tried next gives no primitive value, so the conversion throws;
  without one \<open>Object.prototype.toString\<close> answers \<open>[object Object]\<close>.
\<close>

fun templateText :: "jsval \<Rightarrow> thrown + string" where
  "templateText Undefined = Inr ''undefined''"
| "templateText Null = Inr ''null''"
| "templateText (Str s) = Inr s"
| "templateText (Num x) = Inr (numberText x)"
| "templateText (Bool b) = Inr (if b then ''true'' else ''false'')"
| "templateText (Obj m) =
     (if fmlookup m ''toString'' \<noteq> None then Inl (TypeError (Obj m))
      else Inr ''[object Object]'')"

text \<open>
  The props that the schema does not declare. The walk assigns and sets only at paths
  that begin with a key of the schema, and a key of the schema is a field name, which
  \<open>constructor\<close> and \<open>__proto__\<close> are not (they are properties of \<open>Object.prototype\<close>,
  see \<open>get\<close>). So when the walk throws, the record's own \<open>constructor\<close> and its
  prototype are what \<open>Object.assign\<close> made them, from props of this kind.
\<close>

definition undeclaredProp :: "RecordSchema \<Rightarrow> obj \<Rightarrow> string \<Rightarrow> jsval option" where
  "undeclaredProp schema props k = (if k \<in> fst ` set schema then None else fmlookup props k)"

text \<open>
  \<open>`${this.constructor.name}`\<close> as the catch block evaluates it, on the record that
  \<open>Object.assign(this, props)\<close> left: the text, or the \<open>TypeError\<close> thrown on the way.
\<close>

definition constructorName :: "ActiveClass \<Rightarrow> obj \<Rightarrow> thrown + string" where
  "constructorName C props =
     (case nameOf (thisConstructor (name C)
                     (undeclaredProp (schemaOf C) props ''constructor'')
                     (prototypeAfterAssign (undeclaredProp (schemaOf C) props ''__proto__''))) of
        Inl raw \<Rightarrow> Inl raw
      | Inr n \<Rightarrow> templateText n)"

text \<open>
  \<open>new C(props)\<close> for the class \<open>C\<close> that constructs. The argument is \<open>None\<close> when the
  constructor is called without one; the parameter then defaults to the empty object.
  \<open>Object.assign(this, props)\<close> runs before the \<open>try\<close>. When the walk throws, the
  catch block builds \<open>what\<close> from \<open>this.constructor.name\<close> and throws
  \<open>ActiveClassError.from(err, { what })\<close>; a \<open>TypeError\<close> raised while it builds
  \<open>what\<close> leaves the constructor as it is. The result is the validated record or what
  was thrown; the listener and the syncing that wrap a validated record are not among
  the sources and have no part in the validation.
\<close>

definition ActiveRecord :: "ActiveClass \<Rightarrow> obj option \<Rightarrow> thrown + obj" where
  "ActiveRecord C propsArg =
     (let props = (case propsArg of None \<Rightarrow> fmempty | Some p \<Rightarrow> p);
          this = fmempty ++\<^sub>f fmdrop ''__proto__'' props
      in case checkAgainstSchema (schemaOf C) props True this of
           Inl err \<Rightarrow>
             (case constructorName C props of
                Inl raw \<Rightarrow> Inl raw
              | Inr n \<Rightarrow> Inl (ActiveClassError_from err (''Could not construct '' @ n)))
         | Inr record \<Rightarrow> Inr record)"

section \<open>The sync engine\<close>

text \<open>
  Modelled from the spec: \<open>setupSyncing\<close> and \<open>withOnChangeListener\<close> are not among
  the sources. Sections 4.4, 4.5 and 5: a record instance carries its properties, its
  sync options and the write handles not yet settled. Every assignment to a property
  enqueues a write of the changed value when syncing to the remote store is on, unless
  the assignment is marked as the local application of a remote event. A local mutation
  is validated and then assigned, unmarked. A remote update event, when syncing from the
  remote store is on, validates the new snapshot and assigns every property the schema
  declares from it, marked. \<open>assigned\<close> is the history of assignments, kept to count
  them; events are handled one at a time.
\<close>

record SyncOpts =
  fromRemote :: bool
  toRemote :: bool

datatype writeHandle = Write string jsval

record RecordInstance =
  properties :: obj
  syncOptions :: SyncOpts
  pendingWrites :: "writeHandle list"
  assigned :: "string list"

text \<open>
  Modelled from the spec: one assignment to a property (section 4.4, mutation
  interception), with the mark of section 4.5 for the application of a remote event.
\<close>

definition assignProperty :: "bool \<Rightarrow> string \<Rightarrow> jsval \<Rightarrow> RecordInstance \<Rightarrow> RecordInstance" where
  "assignProperty fromRemoteEvent k v inst =
     inst\<lparr> properties := fmupd k v (properties inst),
           assigned := assigned inst @ [k],
           pendingWrites :=
             (if toRemote (syncOptions inst) \<and> \<not> fromRemoteEvent
              then pendingWrites inst @ [Write k v] else pendingWrites inst) \<rparr>"

text \<open>
  Modelled from the spec: a local mutation of a property; a value that fails validation
  is rejected and the instance stays as it was (section 4.4).
\<close>

definition mutate :: "RecordSchema \<Rightarrow> string \<Rightarrow> jsval \<Rightarrow> RecordInstance \<Rightarrow> thrown + RecordInstance" where
  "mutate schema k v inst =
     (case checkAgainstSchema schema fmempty False (fmupd k v (properties inst)) of
        Inl err \<Rightarrow> Inl err
      | Inr validated \<Rightarrow> Inr (assignProperty False k (readProp validated k) inst))"

text \<open>
  Modelled from the spec: the handler of a remote update event (section 4.5). The
  snapshot is validated, then applied to the properties that the schema declares.
\<close>

fun applySnapshot :: "string list \<Rightarrow> obj \<Rightarrow> RecordInstance \<Rightarrow> RecordInstance" where
  "applySnapshot [] snapshot inst = inst"
| "applySnapshot (k # ks) snapshot inst =
     applySnapshot ks snapshot (assignProperty True k (readProp snapshot k) inst)"

definition onRemoteUpdate :: "RecordSchema \<Rightarrow> obj \<Rightarrow> RecordInstance \<Rightarrow> thrown + RecordInstance" where
  "onRemoteUpdate schema snapshot inst =
     (if \<not> fromRemote (syncOptions inst) then Inr inst
      else case checkAgainstSchema schema fmempty False snapshot of
             Inl err \<Rightarrow> Inl err
           | Inr validated \<Rightarrow> Inr (applySnapshot (map fst schema) validated inst))"

section \<open>The schemas of the tests\<close>

text \<open>
  \<open>buildingSchema = { floors: Schema.number }\<close> and
  \<open>class Lightbulb extends ActiveClass(buildingSchema)\<close> of the constructor's tests.
\<close>

definition buildingSchema :: RecordSchema where
  "buildingSchema = [(''floors'', Field (numberFn None))]"

definition Lightbulb :: ActiveClass where
  "Lightbulb = (makeActiveClassConstructor buildingSchema None)\<lparr> name := ''Lightbulb'' \<rparr>"

text \<open>
  The nested schema of baseClass.test.ts: \<open>name\<close>, \<open>hours: { openingTime, closingTime
  (default 20) }\<close> and \<open>status: { isAccessible (optional) }\<close>, under the class name
  \<open>Venue\<close>.
\<close>

definition venueSchema :: RecordSchema where
  "venueSchema =
     [(''name'', Field (stringFn None)),
      (''hours'', Node
         [(''openingTime'', Field (numberFn None)),
          (''closingTime'', Field (numberFn (Some
             \<lparr> default_opt = Num 20, required_opt = None, optional_opt = None \<rparr>)))]),
      (''status'', Node
         [(''isAccessible'', Field (booleanFn (Some
             \<lparr> default_opt = Undefined, required_opt = None, optional_opt = Some True \<rparr>)))])]"

definition Venue :: ActiveClass where
  "Venue = makeActiveClassConstructor venueSchema (Some ''Venue'')"

section \<open>Reading and writing: lemmas\<close>

lemma baseGet_Undefined [simp]: "baseGet Undefined p = Undefined"
  by (cases p) simp_all

lemma baseGet_append: "baseGet v (p @ r) = baseGet (baseGet v p) r"
proof (induction v p rule: baseGet.induct)
  case (2 m k ks)
  then show ?case by (simp split: option.splits)
qed simp_all

lemma baseGet_baseSet_extend:
  "p \<noteq> [] \<Longrightarrow> baseGet (Obj (baseSet m p v)) (p @ r) = baseGet v r"
  by (induction m p v rule: baseSet.induct) simp_all

lemma baseGet_baseSet_other:
  "\<not> prefix p q \<Longrightarrow> \<not> prefix q p \<Longrightarrow> baseGet (Obj (baseSet m p v)) q = baseGet (Obj m) q"
proof (induction m p v arbitrary: q rule: baseSet.induct)
  case (1 m v)
  then show ?case by simp
next
  case (2 m k v)
  then show ?case by (cases q) auto
next
  case (3 m k k' ks v)
  then obtain j qs where q: "q = j # qs" by (cases q) auto
  show ?case
  proof (cases "j = k")
    case False
    then show ?thesis using q by simp
  next
    case True
    from 3(2,3) q True have inc: "\<not> prefix (k' # ks) qs" "\<not> prefix qs (k' # ks)" by auto
    then have qs: "qs \<noteq> []" by auto
    have ih: "baseGet (Obj (baseSet (case fmlookup m k of Some (Obj c) \<Rightarrow> c | _ \<Rightarrow> fmempty) (k' # ks) v)) qs
      = baseGet (Obj (case fmlookup m k of Some (Obj c) \<Rightarrow> c | _ \<Rightarrow> fmempty)) qs"
      using 3(1)[OF inc] .
    show ?thesis
    proof (cases "fmlookup m k")
      case None
      then show ?thesis using q True ih qs by (cases qs) auto
    next
      case (Some w)
      then show ?thesis using q True ih qs by (cases w; cases qs) auto
    qed
  qed
qed

lemma fmlookup_baseSet_other: "k \<noteq> k0 \<Longrightarrow> fmlookup (baseSet m (k0 # ps) v) k = fmlookup m k"
  by (cases ps) simp_all

lemma baseSet_fmupd_commute:
  "k \<noteq> k0 \<Longrightarrow> baseSet (fmupd k x m) (k0 # ps) v = fmupd k x (baseSet m (k0 # ps) v)"
  by (cases ps) (simp_all add: fmupd_reorder_neq)

lemma baseGet_fmupd_other:
  "k \<noteq> k0 \<Longrightarrow> baseGet (Obj (fmupd k x m)) (k0 # ps) = baseGet (Obj m) (k0 # ps)"
  by simp

lemma get_nonempty: "p \<noteq> [] \<Longrightarrow> get v p = baseGet v p"
  by (simp add: get_def)

lemma checkPrimitive_commute:
  "p \<noteq> [] \<Longrightarrow> hd p \<noteq> k \<Longrightarrow> checkPrimitive fd p (fmupd k x this)
     = map_sum (\<lambda>e. e) (fmupd k x) (checkPrimitive fd p this)"
  by (cases p) (simp_all add: checkPrimitive_def get_def Let_def baseSet_fmupd_commute del: baseSet.simps)

lemma walk_commute:
  "p \<noteq> [] \<Longrightarrow> hd p \<noteq> k \<Longrightarrow> iterativelyCheckAgainstSchema s p (fmupd k x this)
     = map_sum (\<lambda>e. e) (fmupd k x) (iterativelyCheckAgainstSchema s p this)"
  "p \<noteq> [] \<Longrightarrow> hd p \<noteq> k \<Longrightarrow> checkChildKeys cs p (fmupd k x this)
     = map_sum (\<lambda>e. e) (fmupd k x) (checkChildKeys cs p this)"
proof (induction s p this and cs p this
       rule: iterativelyCheckAgainstSchema_checkChildKeys.induct)
  case (1 fd p this)
  then show ?case by (simp add: checkPrimitive_commute)
next
  case (2 children p this)
  then obtain k0 ps where p: "p = k0 # ps" "k0 \<noteq> k" by (cases p) auto
  show ?case
    using 2 p
    by (cases "get (Obj this) (k0 # ps) = Undefined")
       (simp_all add: get_def baseSet_fmupd_commute del: baseSet.simps)
next
  case (3 p this)
  then show ?case by simp
next
  case (4 childKey s rest p this)
  have a: "iterativelyCheckAgainstSchema s (p @ [childKey]) (fmupd k x this)
     = map_sum (\<lambda>e. e) (fmupd k x) (iterativelyCheckAgainstSchema s (p @ [childKey]) this)"
    using 4(1) 4(3,4) by simp
  show ?case
  proof (cases "iterativelyCheckAgainstSchema s (p @ [childKey]) this")
    case (Inl e)
    then show ?thesis using a by simp
  next
    case (Inr this')
    then show ?thesis using a 4(2)[OF Inr] 4(3,4) by simp
  qed
qed

section \<open>The walk: what it leaves alone and what it establishes\<close>

lemma checkPrimitive_frame:
  "checkPrimitive fd p this = Inr this' \<Longrightarrow> \<not> prefix p q \<Longrightarrow> \<not> prefix q p
   \<Longrightarrow> baseGet (Obj this') q = baseGet (Obj this) q"
  by (auto simp: checkPrimitive_def Let_def baseGet_baseSet_other split: if_splits)

lemma walk_frame:
  "iterativelyCheckAgainstSchema s p this = Inr this' \<Longrightarrow> \<not> prefix p q \<Longrightarrow> \<not> prefix q p
   \<Longrightarrow> baseGet (Obj this') q = baseGet (Obj this) q"
  "checkChildKeys cs p this = Inr this' \<Longrightarrow> \<forall>k \<in> fst ` set cs. \<not> prefix (p @ [k]) q
   \<Longrightarrow> \<not> prefix q p \<Longrightarrow> baseGet (Obj this') q = baseGet (Obj this) q"
proof (induction s p this and cs p this arbitrary: this' and this'
       rule: iterativelyCheckAgainstSchema_checkChildKeys.induct)
  case (1 fd p this)
  then show ?case by (simp add: checkPrimitive_frame)
next
  case (2 children p this)
  let ?this1 = "if get (Obj this) p = Undefined then baseSet this p (Obj fmempty) else this"
  have np: "\<forall>k \<in> fst ` set children. \<not> prefix (p @ [k]) q"
    using 2(3) by (auto dest: append_prefixD)
  have "baseGet (Obj this') q = baseGet (Obj ?this1) q"
    using 2(1)[OF _ np 2(4)] 2(2) by simp
  also have "\<dots> = baseGet (Obj this) q"
    using 2(3,4) by (simp add: baseGet_baseSet_other)
  finally show ?case .
next
  case (3 p this)
  then show ?case by simp
next
  case (4 childKey s rest p this)
  from 4(3) obtain this1 where
    s1: "iterativelyCheckAgainstSchema s (p @ [childKey]) this = Inr this1"
    and s2: "checkChildKeys rest p this1 = Inr this'"
    by (auto split: sum.splits)
  have a: "\<not> prefix (p @ [childKey]) q" using 4(4) by simp
  have b: "\<not> prefix q (p @ [childKey])" using a 4(5) by auto
  have "baseGet (Obj this1) q = baseGet (Obj this) q" using 4(1)[OF s1 a b] .
  moreover have "baseGet (Obj this') q = baseGet (Obj this1) q"
    using 4(2)[OF s1 s2 _ 4(5)] 4(4) by simp
  ultimately show ?case by simp
qed

lemma checkPrimitive_outcome:
  "p \<noteq> [] \<Longrightarrow> checkPrimitive fd p this = Inr this'
   \<Longrightarrow> leafOutcome fd (baseGet (Obj this) p) (baseGet (Obj this') p)"
  using baseGet_baseSet_extend[of p this "default_val fd" "[]"]
  by (auto simp: checkPrimitive_def leafOutcome_def get_def Let_def split: if_splits)

lemma schemaAt_Field: "schemaAt (Field fd) r = Some (Field fd') \<longleftrightarrow> r = [] \<and> fd' = fd"
  by (cases r) auto

lemma walk_outcome:
  "iterativelyCheckAgainstSchema s p this = Inr this' \<Longrightarrow> distinctKeys s \<Longrightarrow> p \<noteq> []
   \<Longrightarrow> schemaAt s r = Some (Field fd)
   \<Longrightarrow> leafOutcome fd (baseGet (Obj this) (p @ r)) (baseGet (Obj this') (p @ r))"
  "checkChildKeys cs p this = Inr this' \<Longrightarrow> distinctChildKeys cs \<Longrightarrow> p \<noteq> []
   \<Longrightarrow> schemaIn cs k ks = Some (Field fd)
   \<Longrightarrow> leafOutcome fd (baseGet (Obj this) (p @ k # ks)) (baseGet (Obj this') (p @ k # ks))"
proof (induction s p this and cs p this arbitrary: this' r and this' k ks
       rule: iterativelyCheckAgainstSchema_checkChildKeys.induct)
  case (1 fd0 p this)
  then show ?case by (simp add: schemaAt_Field checkPrimitive_outcome)
next
  case (2 children p this)
  let ?this1 = "if get (Obj this) p = Undefined then baseSet this p (Obj fmempty) else this"
  from 2(5) obtain k ks where r: "r = k # ks" by (cases r) auto
  have same: "baseGet (Obj ?this1) (p @ r) = baseGet (Obj this) (p @ r)"
  proof (cases "get (Obj this) p = Undefined")
    case True
    then have "baseGet (Obj this) p = Undefined" using 2(4) by (simp add: get_def)
    then have "baseGet (Obj this) (p @ r) = Undefined" by (simp add: baseGet_append)
    moreover have "baseGet (Obj ?this1) (p @ r) = Undefined"
      using True 2(4) r by (simp add: baseGet_baseSet_extend)
    ultimately show ?thesis by simp
  next
    case False
    then show ?thesis by simp
  qed
  have "leafOutcome fd (baseGet (Obj ?this1) (p @ k # ks)) (baseGet (Obj this') (p @ k # ks))"
    using 2(1)[of this' k ks] 2(2,3,4,5) r by simp
  then show ?case using same r by simp
next
  case (3 p this)
  then show ?case by simp
next
  case (4 childKey s rest p this)
  from 4(3) obtain this1 where
    s1: "iterativelyCheckAgainstSchema s (p @ [childKey]) this = Inr this1"
    and s2: "checkChildKeys rest p this1 = Inr this'"
    by (auto split: sum.splits)
  from 4(4) have d: "childKey \<notin> fst ` set rest" "distinctKeys s" "distinctChildKeys rest"
    by simp_all
  show ?case
  proof (cases "childKey = k")
    case True
    then have at: "schemaAt s ks = Some (Field fd)" using 4(6) by simp
    have o: "leafOutcome fd (baseGet (Obj this) ((p @ [childKey]) @ ks))
               (baseGet (Obj this1) ((p @ [childKey]) @ ks))"
      using 4(1)[OF s1 d(2) _ at] by simp
    have "\<forall>j \<in> fst ` set rest. \<not> prefix (p @ [j]) (p @ k # ks)"
      using d(1) True by auto
    moreover have "\<not> prefix (p @ k # ks) p" by (simp add: prefix_def)
    ultimately have "baseGet (Obj this') (p @ k # ks) = baseGet (Obj this1) (p @ k # ks)"
      using walk_frame(2)[OF s2] by blast
    then show ?thesis using o True by simp
  next
    case False
    then have inn: "schemaIn rest k ks = Some (Field fd)" using 4(6) by simp
    have o: "leafOutcome fd (baseGet (Obj this1) (p @ k # ks)) (baseGet (Obj this') (p @ k # ks))"
      using 4(2)[OF s1 s2 d(3) 4(5) inn] .
    have "\<not> prefix (p @ [childKey]) (p @ k # ks)" using False by simp
    moreover have "\<not> prefix (p @ k # ks) (p @ [childKey])" using False by (simp add: prefix_def)
    ultimately have "baseGet (Obj this1) (p @ k # ks) = baseGet (Obj this) (p @ k # ks)"
      using walk_frame(1)[OF s1] by blast
    then show ?thesis using o by simp
  qed
qed

section \<open>The top-level check\<close>

lemma baseGet_readProp: "baseGet (Obj m) (k # ks) = baseGet (readProp m k) ks"
  by (simp add: readProp_def split: option.splits)

lemma readProp_fmupd: "readProp (fmupd k x m) j = (if j = k then x else readProp m j)"
  by (simp add: readProp_def)

lemma top_frame:
  "checkAgainstSchema S props init rcd = Inr r \<Longrightarrow> k \<notin> fst ` set S
   \<Longrightarrow> baseGet (Obj r) (k # ks) = baseGet (Obj rcd) (k # ks)"
proof (induction S props init rcd arbitrary: r rule: checkAgainstSchema.induct)
  case (1 props init rcd)
  then show ?case by simp
next
  case (2 key s rest props init rcd)
  let ?record1 = "if init then fmupd key (readProp props key) rcd else rcd"
  from 2(2) obtain record2 where
    s1: "iterativelyCheckAgainstSchema s [key] ?record1 = Inr record2"
    and s2: "checkAgainstSchema rest props init record2 = Inr r"
    by (auto split: sum.splits)
  from 2(3) have k: "k \<noteq> key" "k \<notin> fst ` set rest" by auto
  have "baseGet (Obj r) (k # ks) = baseGet (Obj record2) (k # ks)"
    using 2(1)[OF s1 s2 k(2)] .
  also have "\<dots> = baseGet (Obj ?record1) (k # ks)"
    using walk_frame(1)[OF s1, of "k # ks"] k(1) by simp
  also have "\<dots> = baseGet (Obj rcd) (k # ks)"
    using k(1) by simp
  finally show ?case .
qed

lemma top_outcome:
  "checkAgainstSchema S props init rcd = Inr r \<Longrightarrow> distinctChildKeys S
   \<Longrightarrow> (init \<Longrightarrow> \<forall>j \<in> fst ` set S. readProp props j = readProp rcd j)
   \<Longrightarrow> schemaIn S k ks = Some (Field fd)
   \<Longrightarrow> leafOutcome fd (baseGet (Obj rcd) (k # ks)) (baseGet (Obj r) (k # ks))"
proof (induction S props init rcd arbitrary: r rule: checkAgainstSchema.induct)
  case (1 props init rcd)
  then show ?case by simp
next
  case (2 key s rest props init rcd)
  let ?record1 = "if init then fmupd key (readProp props key) rcd else rcd"
  from 2(2) obtain record2 where
    s1: "iterativelyCheckAgainstSchema s [key] ?record1 = Inr record2"
    and s2: "checkAgainstSchema rest props init record2 = Inr r"
    by (auto split: sum.splits)
  from 2(3) have d: "key \<notin> fst ` set rest" "distinctKeys s" "distinctChildKeys rest"
    by simp_all
  have same1: "baseGet (Obj ?record1) q = baseGet (Obj rcd) q" if "q \<noteq> []" for q
  proof (cases q)
    case Nil
    then show ?thesis using that by simp
  next
    case (Cons j qs)
    show ?thesis
    proof (cases "init \<and> j = key")
      case True
      then have "readProp props key = readProp rcd key" using 2(4) by simp
      then show ?thesis using True Cons
        by (simp add: baseGet_readProp readProp_fmupd del: baseGet.simps)
    next
      case False
      then show ?thesis using Cons by auto
    qed
  qed
  show ?case
  proof (cases "key = k")
    case True
    then have at: "schemaAt s ks = Some (Field fd)" using 2(5) by simp
    have "leafOutcome fd (baseGet (Obj ?record1) ([key] @ ks)) (baseGet (Obj record2) ([key] @ ks))"
      using walk_outcome(1)[OF s1 d(2) _ at] by simp
    then have o: "leafOutcome fd (baseGet (Obj rcd) (k # ks)) (baseGet (Obj record2) (k # ks))"
      using same1[of "k # ks"] True by simp
    have "baseGet (Obj r) (k # ks) = baseGet (Obj record2) (k # ks)"
      using top_frame[OF s2] d(1) True by simp
    then show ?thesis using o by simp
  next
    case False
    then have inn: "schemaIn rest k ks = Some (Field fd)" using 2(5) by simp
    have eq2: "baseGet (Obj record2) q = baseGet (Obj rcd) q" if "\<not> prefix [key] q" "q \<noteq> []" for q
    proof -
      have "\<not> prefix q [key]" using that by (cases q) auto
      then show ?thesis using walk_frame(1)[OF s1 that(1)] same1[OF that(2)] by simp
    qed
    have inv: "\<forall>j \<in> fst ` set rest. readProp props j = readProp record2 j" if init
    proof
      fix j assume j: "j \<in> fst ` set rest"
      then have "j \<noteq> key" using d(1) by auto
      then have "baseGet (Obj record2) [j] = baseGet (Obj rcd) [j]" using eq2[of "[j]"] by simp
      then have "readProp record2 j = readProp rcd j"
        by (simp add: readProp_def split: option.splits)
      moreover have "readProp props j = readProp rcd j" using 2(4)[OF that] j by auto
      ultimately show "readProp props j = readProp record2 j" by simp
    qed
    have "leafOutcome fd (baseGet (Obj record2) (k # ks)) (baseGet (Obj r) (k # ks))"
      using 2(1)[OF s1 s2 d(3) inv inn] .
    then show ?thesis using eq2[of "k # ks"] False by simp
  qed
qed

lemma top_commute:
  "k \<notin> fst ` set S \<Longrightarrow>
   checkAgainstSchema S (fmupd k x props) init (fmupd k x rcd)
     = map_sum (\<lambda>e. e) (fmupd k x) (checkAgainstSchema S props init rcd)"
proof (induction S props init rcd rule: checkAgainstSchema.induct)
  case (1 props init rcd)
  then show ?case by simp
next
  case (2 key s rest props init rcd)
  let ?record1 = "if init then fmupd key (readProp props key) rcd else rcd"
  from 2(2) have k: "k \<noteq> key" "k \<notin> fst ` set rest" by auto
  have r1: "(if init then fmupd key (readProp (fmupd k x props) key) (fmupd k x rcd)
             else fmupd k x rcd) = fmupd k x ?record1"
    using k(1) by (simp add: readProp_fmupd fmupd_reorder_neq)
  have w: "iterativelyCheckAgainstSchema s [key] (fmupd k x ?record1)
     = map_sum (\<lambda>e. e) (fmupd k x) (iterativelyCheckAgainstSchema s [key] ?record1)"
    using walk_commute(1)[of "[key]" k] k(1) by simp
  show ?case
  proof (cases "iterativelyCheckAgainstSchema s [key] ?record1")
    case (Inl e)
    then show ?thesis using w r1 by simp
  next
    case (Inr record2)
    then show ?thesis using w r1 2(1)[OF Inr k(2)] by simp
  qed
qed

lemma top_props_cong:
  "\<forall>j \<in> fst ` set S. readProp props j = readProp props' j \<Longrightarrow>
   checkAgainstSchema S props init rcd = checkAgainstSchema S props' init rcd"
proof (induction S props init rcd rule: checkAgainstSchema.induct)
  case (1 props init rcd)
  then show ?case by simp
next
  case (2 key s rest props init rcd)
  then show ?case by (auto split: sum.splits)
qed

lemma top_omitted_node:
  "distinctChildKeys S \<Longrightarrow> schemaIn S k [] = Some (Node cs) \<Longrightarrow> readProp props k = Undefined
   \<Longrightarrow> checkAgainstSchema S (fmupd k (Obj fmempty) props) True (fmupd k (Obj fmempty) rcd)
     = checkAgainstSchema S props True rcd"
proof (induction S props "True" rcd rule: checkAgainstSchema.induct)
  case (1 props rcd)
  then show ?case by simp
next
  case (2 key s rest props rcd)
  from 2(2) have d: "key \<notin> fst ` set rest" "distinctKeys s" "distinctChildKeys rest"
    by simp_all
  show ?case
  proof (cases "key = k")
    case True
    then have s: "s = Node cs" using 2(3) by simp
    have "\<forall>j \<in> fst ` set rest. readProp (fmupd k (Obj fmempty) props) j = readProp props j"
      using d(1) True by (auto simp: readProp_fmupd)
    then have "checkAgainstSchema rest (fmupd k (Obj fmempty) props) True r
        = checkAgainstSchema rest props True r" for r
      by (rule top_props_cong)
    then show ?thesis using True s 2(4)
      by (simp add: readProp_fmupd get_def split: sum.splits)
  next
    case False
    then have inn: "schemaIn rest k [] = Some (Node cs)" using 2(3) by simp
    let ?record1 = "fmupd key (readProp props key) rcd"
    have w: "iterativelyCheckAgainstSchema s [key] (fmupd k (Obj fmempty) ?record1)
       = map_sum (\<lambda>e. e) (fmupd k (Obj fmempty)) (iterativelyCheckAgainstSchema s [key] ?record1)"
      using walk_commute(1)[of "[key]" k] False by simp
    have r1: "fmupd key (readProp (fmupd k (Obj fmempty) props) key) (fmupd k (Obj fmempty) rcd)
        = fmupd k (Obj fmempty) ?record1"
      using False by (simp add: readProp_fmupd fmupd_reorder_neq)
    show ?thesis
    proof (cases "iterativelyCheckAgainstSchema s [key] ?record1")
      case (Inl e)
      then show ?thesis using w r1 by simp
    next
      case (Inr record2)
      have "iterativelyCheckAgainstSchema s [key] (if True then ?record1 else rcd) = Inr record2"
        using Inr by simp
      from 2(1)[OF this d(3) inn 2(4)] show ?thesis using w r1 Inr by simp
    qed
  qed
qed

section \<open>What the constructor throws and when it fails\<close>

lemmas example_defs = ActiveRecord_def Lightbulb_def buildingSchema_def Venue_def venueSchema_def
  makeActiveClassConstructor_def checkPrimitive_def get_def readProp_def ActiveClassError_from_def
  constructorName_def undeclaredProp_def prototypeAfterAssign_def thisConstructor_def
  Let_def

lemma walk_throws_FieldError:
  "iterativelyCheckAgainstSchema s p this = Inl err \<Longrightarrow> \<exists>r. err = FieldError r"
  "checkChildKeys cs p this = Inl err \<Longrightarrow> \<exists>r. err = FieldError r"
proof (induction s p this and cs p this
       rule: iterativelyCheckAgainstSchema_checkChildKeys.induct)
  case (1 fd p this)
  then show ?case by (auto simp: checkPrimitive_def Let_def split: if_splits)
next
  case (2 children p this)
  then show ?case by simp
next
  case (3 p this)
  then show ?case by simp
next
  case (4 childKey s rest p this)
  then show ?case by (auto split: sum.splits)
qed

lemma top_throws_FieldError:
  "checkAgainstSchema S props init rcd = Inl err \<Longrightarrow> \<exists>r. err = FieldError r"
proof (induction S props init rcd rule: checkAgainstSchema.induct)
  case (1 props init rcd)
  then show ?case by simp
next
  case (2 key s rest props init rcd)
  then show ?case by (auto split: sum.splits dest: walk_throws_FieldError(1))
qed

lemma top_required_missing:
  assumes d: "distinctChildKeys S"
    and l: "schemaIn S k ks = Some (Field fd)"
    and u: "baseGet (Obj rcd) (k # ks) = Undefined"
    and r: "required fd" "hasDefault fd \<noteq> Some True"
    and i: "init \<Longrightarrow> \<forall>j \<in> fst ` set S. readProp props j = readProp rcd j"
  shows "isl (checkAgainstSchema S props init rcd)"
proof (cases "checkAgainstSchema S props init rcd")
  case (Inl e)
  then show ?thesis by simp
next
  case (Inr res)
  from top_outcome[OF Inr d i l] u r show ?thesis by (simp add: leafOutcome_def)
qed

lemma schemaIn_key: "schemaIn S k ks = Some s \<Longrightarrow> k \<in> fst ` set S"
  by (induction S) (auto split: if_splits)

lemma top_declared_overwritten:
  "k \<in> fst ` set S \<Longrightarrow>
   checkAgainstSchema S props True (fmupd k x rcd) = checkAgainstSchema S props True rcd"
proof (induction S arbitrary: rcd)
  case Nil
  then show ?case by simp
next
  case (Cons a S)
  obtain key s where a: "a = (key, s)" by (cases a)
  show ?case
  proof (cases "key = k")
    case True
    then show ?thesis using a by simp
  next
    case False
    then have k: "k \<in> fst ` set S" using Cons.prems a by auto
    let ?record1 = "fmupd key (readProp props key) rcd"
    have r1: "fmupd key (readProp props key) (fmupd k x rcd) = fmupd k x ?record1"
      using False by (simp add: fmupd_reorder_neq)
    have w: "iterativelyCheckAgainstSchema s [key] (fmupd k x ?record1)
       = map_sum (\<lambda>e. e) (fmupd k x) (iterativelyCheckAgainstSchema s [key] ?record1)"
      using walk_commute(1)[of "[key]" k] False by simp
    show ?thesis
    proof (cases "iterativelyCheckAgainstSchema s [key] ?record1")
      case (Inl e)
      then show ?thesis using a w r1 by simp
    next
      case (Inr record2)
      then show ?thesis using a w r1 Cons.IH[OF k, of record2] by simp
    qed
  qed
qed

lemma top_declared_dropped:
  "k \<in> fst ` set S \<Longrightarrow>
   checkAgainstSchema S props True (fmdrop k rcd) = checkAgainstSchema S props True rcd"
proof (cases "fmlookup rcd k")
  case None
  then have "fmdrop k rcd = rcd" by (simp add: fmdrop_idle fmdom_notI)
  then show ?thesis by simp
next
  case (Some v)
  assume k: "k \<in> fst ` set S"
  have "rcd = fmupd k v (fmdrop k rcd)"
  proof (rule fmap_ext)
    fix j show "fmlookup rcd j = fmlookup (fmupd k v (fmdrop k rcd)) j"
      using Some by auto
  qed
  then have "checkAgainstSchema S props True rcd
      = checkAgainstSchema S props True (fmupd k v (fmdrop k rcd))" by simp
  also have "\<dots> = checkAgainstSchema S props True (fmdrop k rcd)"
    using top_declared_overwritten[OF k] .
  finally show ?thesis by simp
qed

lemma constructed_outcome:
  assumes run: "checkAgainstSchema S props True (fmdrop P props) = Inr r"
    and d: "distinctChildKeys S"
    and l: "schemaIn S k ks = Some (Field fd)"
  shows "leafOutcome fd (baseGet (Obj props) (k # ks)) (baseGet (Obj r) (k # ks))"
proof (cases "P \<in> fst ` set S")
  case True
  then have "checkAgainstSchema S props True props = Inr r"
    using run top_declared_dropped[of P S props props] by simp
  from top_outcome[OF this d _ l] show ?thesis by simp
next
  case False
  have k: "k \<noteq> P" using schemaIn_key[OF l] False by auto
  have "\<forall>j \<in> fst ` set S. readProp props j = readProp (fmdrop P props) j"
    using False by (auto simp: readProp_def)
  from top_outcome[OF run d this l] show ?thesis using k by simp
qed

lemma constructed_fails:
  assumes "isl (checkAgainstSchema (schemaOf C) props True (fmdrop ''__proto__'' props))"
  shows "isl (ActiveRecord C (Some props))"
  using assms by (auto simp: ActiveRecord_def Let_def split: sum.splits)

lemma constructed_succeeds:
  "ActiveRecord C (Some props) = Inr rcd \<longleftrightarrow>
   checkAgainstSchema (schemaOf C) props True (fmdrop ''__proto__'' props) = Inr rcd"
  by (auto simp: ActiveRecord_def Let_def split: sum.splits)

lemma constructed_isl:
  "isl (ActiveRecord C (Some props))
     = isl (checkAgainstSchema (schemaOf C) props True (fmdrop ''__proto__'' props))"
  by (auto simp: ActiveRecord_def Let_def split: sum.splits)

lemma constructorName_inherited:
  "undeclaredProp (schemaOf C) props ''constructor'' = None
   \<Longrightarrow> undeclaredProp (schemaOf C) props ''__proto__'' = None
   \<Longrightarrow> constructorName C props = Inr (name C)"
  by (simp add: constructorName_def thisConstructor_def prototypeAfterAssign_def)

lemma errors_wrapped_under_inherited_constructor:
  assumes "undeclaredProp (schemaOf C) props ''constructor'' = None"
    and "undeclaredProp (schemaOf C) props ''__proto__'' = None"
  shows "ActiveRecord C (Some props) = Inl thrownErr \<longleftrightarrow>
     (\<exists>r. checkAgainstSchema (schemaOf C) props True (fmdrop ''__proto__'' props) = Inl (FieldError r)
          \<and> thrownErr = ActiveClassError (''Could not construct '' @ name C) (FieldError r))"
  using constructorName_inherited[OF assms]
  by (auto simp: ActiveRecord_def Let_def ActiveClassError_from_def split: sum.splits
           dest: top_throws_FieldError)

section \<open>The sync engine: lemmas\<close>

lemma applySnapshot_effect:
  "pendingWrites (applySnapshot ks snapshot inst) = pendingWrites inst
   \<and> syncOptions (applySnapshot ks snapshot inst) = syncOptions inst
   \<and> assigned (applySnapshot ks snapshot inst) = assigned inst @ ks
   \<and> readProp (properties (applySnapshot ks snapshot inst)) k
       = (if k \<in> set ks then readProp snapshot k else readProp (properties inst) k)"
proof (induction ks arbitrary: inst)
  case Nil
  then show ?case by simp
next
  case (Cons j ks)
  show ?case
    using Cons[of "assignProperty True j (readProp snapshot j) inst"]
    by (simp add: assignProperty_def readProp_fmupd)
qed

lemma count_list_distinct: "distinct xs \<Longrightarrow> x \<in> set xs \<Longrightarrow> count_list xs x = 1"
  by (induction xs) auto

lemma local_mutation_enqueues_write:
  "toRemote (syncOptions inst) \<Longrightarrow> mutate schema k v inst = Inr inst'
   \<Longrightarrow> \<exists>w. pendingWrites inst' = pendingWrites inst @ [Write k w]"
  by (auto simp: mutate_def assignProperty_def split: sum.splits)

section \<open>Remote updates are not written back\<close>

text \<open>
  C1. For a record instance syncing both from and to the remote store, a remote update
  event with a valid snapshot updates the instance's value of every declared field to the
  snapshot's, assigns it exactly once, and leaves the pending writes as they were: no
  write of the change goes back to the remote store.
\<close>

theorem remote_update_applied_once_no_write:
  "fromRemote (syncOptions inst) \<and> toRemote (syncOptions inst)
   \<and> distinct (map fst schema) \<and> k \<in> fst ` set schema
   \<and> checkAgainstSchema schema fmempty False snapshot = Inr validated
   \<longrightarrow> (\<exists>inst'. onRemoteUpdate schema snapshot inst = Inr inst'
          \<and> readProp (properties inst') k = readProp validated k
          \<and> pendingWrites inst' = pendingWrites inst
          \<and> (\<exists>new. assigned inst' = assigned inst @ new \<and> count_list new k = 1))"
proof
  assume h: "fromRemote (syncOptions inst) \<and> toRemote (syncOptions inst)
   \<and> distinct (map fst schema) \<and> k \<in> fst ` set schema
   \<and> checkAgainstSchema schema fmempty False snapshot = Inr validated"
  let ?inst' = "applySnapshot (map fst schema) validated inst"
  have run: "onRemoteUpdate schema snapshot inst = Inr ?inst'"
    using h by (simp add: onRemoteUpdate_def)
  have once: "count_list (map fst schema) k = 1"
    using h count_list_distinct[of "map fst schema" k] by simp
  have "readProp (properties ?inst') k = readProp validated k
        \<and> pendingWrites ?inst' = pendingWrites inst
        \<and> assigned ?inst' = assigned inst @ map fst schema"
    using applySnapshot_effect[of "map fst schema" validated inst k] h by simp
  then show "\<exists>inst'. onRemoteUpdate schema snapshot inst = Inr inst'
          \<and> readProp (properties inst') k = readProp validated k
          \<and> pendingWrites inst' = pendingWrites inst
          \<and> (\<exists>new. assigned inst' = assigned inst @ new \<and> count_list new k = 1)"
    using run once by blast
qed

theorem remote_update_applied_once_no_write_witness:
  "distinct (map fst buildingSchema) \<and> ''floors'' \<in> fst ` set buildingSchema
   \<and> checkAgainstSchema buildingSchema fmempty False (fmupd ''floors'' (Num 9) fmempty)
       = Inr (fmupd ''floors'' (Num 9) fmempty)
   \<and> onRemoteUpdate buildingSchema (fmupd ''floors'' (Num 9) fmempty)
        \<lparr> properties = fmupd ''floors'' (Num 4) fmempty,
          syncOptions = \<lparr> fromRemote = True, toRemote = True \<rparr>,
          pendingWrites = [], assigned = [] \<rparr>
       = Inr \<lparr> properties = fmupd ''floors'' (Num 9) fmempty,
          syncOptions = \<lparr> fromRemote = True, toRemote = True \<rparr>,
          pendingWrites = [], assigned = [''floors''] \<rparr>"
proof -
  let ?inst = "\<lparr> properties = fmupd ''floors'' (Num 4) fmempty,
          syncOptions = \<lparr> fromRemote = True, toRemote = True \<rparr>,
          pendingWrites = [], assigned = [] \<rparr>"
  let ?snap = "fmupd ''floors'' (Num 9) fmempty"
  have h: "distinct (map fst buildingSchema)" "''floors'' \<in> fst ` set buildingSchema"
    "checkAgainstSchema buildingSchema fmempty False ?snap = Inr ?snap"
    by (simp_all add: example_defs)
  have e: "onRemoteUpdate buildingSchema ?snap ?inst
       = Inr \<lparr> properties = fmupd ''floors'' (Num 9) fmempty,
          syncOptions = \<lparr> fromRemote = True, toRemote = True \<rparr>,
          pendingWrites = [], assigned = [''floors''] \<rparr>"
    by (simp add: onRemoteUpdate_def assignProperty_def example_defs)
  from remote_update_applied_once_no_write[where inst = ?inst and schema = buildingSchema
         and k = "''floors''" and snapshot = ?snap and validated = ?snap] h
  have "\<exists>inst'. onRemoteUpdate buildingSchema ?snap ?inst = Inr inst'
          \<and> pendingWrites inst' = pendingWrites ?inst"
    by auto
  then show ?thesis using h e by simp
qed

section \<open>Enum fields\<close>

text \<open>
  C2. An enum field declared with allowed values \<open>V\<close> rejects every value outside
  \<open>V\<close> and accepts every member of \<open>V\<close>, which needs the descriptor to retain \<open>V\<close>.
  The descriptor \<open>enumr\<close> returns has no \<open>vals\<close> and is the same for every list of
  allowed values, so no check that sees the descriptor and the value can accept exactly
  the members of the list the field was declared with.
\<close>

theorem enumr_discards_allowed_values:
  "vals (enumr vs opts) = None
   \<and> enumr vs opts = enumr vs' opts
   \<and> \<not> (\<exists>check. \<forall>allowed v. check (enumr allowed opts) v = (v \<in> set allowed))"
proof -
  have same: "enumr a opts = enumr b opts" for a b
    by (cases opts) simp_all
  have "\<not> (\<exists>check. \<forall>allowed v. check (enumr allowed opts) v = (v \<in> set allowed))"
  proof
    assume "\<exists>check. \<forall>allowed v. check (enumr allowed opts) v = (v \<in> set allowed)"
    then obtain check where c: "\<And>allowed v. check (enumr allowed opts) v = (v \<in> set allowed)"
      by blast
    have "check (enumr [Null] opts) Null" using c[of "[Null]" Null] by simp
    moreover have "\<not> check (enumr [] opts) Null" using c[of "[]" Null] by simp
    ultimately show False using same[of "[Null]" "[]"] by simp
  qed
  moreover have "vals (enumr vs opts) = None" by (cases opts) (simp_all add: Let_def)
  ultimately show ?thesis using same by blast
qed

section \<open>Field definition flags\<close>

text \<open>
  C3. For every options bag passed to a field definition function (\<open>booleanFn\<close>,
  \<open>enumr\<close>), the descriptor has \<open>_hasDefault = true\<close> exactly when a default value is
  supplied and \<open>_hasDefault = false\<close> otherwise; independently, \<open>required\<close> is false
  exactly when the options set \<open>optional\<close> to true or \<open>required\<close> to false, and true in
  every other case, also when no options bag is passed at all.
\<close>

theorem field_flags_from_options:
  "hasDefault (booleanFn (Some opts)) = Some (default_opt opts \<noteq> Undefined)
   \<and> hasDefault (enumr vs (Some opts)) = Some (default_opt opts \<noteq> Undefined)
   \<and> required (booleanFn (Some opts))
       = (\<not> (optional_opt opts = Some True \<or> required_opt opts = Some False))
   \<and> required (enumr vs (Some opts))
       = (\<not> (optional_opt opts = Some True \<or> required_opt opts = Some False))
   \<and> required (booleanFn None) = True
   \<and> required (enumr vs None) = True"
  by (simp add: Let_def)

section \<open>Null is a value, not an absence\<close>

text \<open>
  C4. For every string, number or boolean field, a \<open>null\<close> value fails the leaf check as
  a wrong type, whatever the field's default and required flags; the check reports a
  missing required field, or changes the record by defaulting, only when the value read
  is \<open>undefined\<close>. Constructing a record with \<open>null\<close> at such a field fails, and so does
  the check run again on a record holding \<open>null\<close> there.
\<close>
theorem null_is_wrong_type_never_absent:
  "fieldIdentifier fd \<in> {FI_string, FI_number, FI_boolean} \<longrightarrow>
     (get (Obj this) p = Null \<longrightarrow>
        checkPrimitive fd p this = Inl (FieldError (WrongType p (fieldIdentifier fd) Null)))
     \<and> (\<forall>q. checkPrimitive fd p this = Inl (FieldError (MissingRequiredField q))
            \<longrightarrow> get (Obj this) p = Undefined)
     \<and> (\<forall>this'. checkPrimitive fd p this = Inr this' \<and> this' \<noteq> this
            \<longrightarrow> get (Obj this) p = Undefined)
     \<and> (distinctChildKeys (schemaOf C) \<and> schemaIn (schemaOf C) k ks = Some (Field fd)
          \<and> get (Obj props) (k # ks) = Null
        \<longrightarrow> isl (ActiveRecord C (Some props))
            \<and> isl (checkAgainstSchema (schemaOf C) fmempty False props))"
proof
  assume prim: "fieldIdentifier fd \<in> {FI_string, FI_number, FI_boolean}"
  then have nomatch: "\<not> matchesKind fd Null"
    by (cases fd) auto
  have a: "checkPrimitive fd p this = Inl (FieldError (WrongType p (fieldIdentifier fd) Null))"
    if "get (Obj this) p = Null"
    using that nomatch by (simp add: checkPrimitive_def)
  have b: "get (Obj this) p = Undefined"
    if "checkPrimitive fd p this = Inl (FieldError (MissingRequiredField q))" for q
    using that by (auto simp: checkPrimitive_def Let_def split: if_splits)
  have c: "get (Obj this) p = Undefined"
    if "checkPrimitive fd p this = Inr this' \<and> this' \<noteq> this" for this'
    using that by (auto simp: checkPrimitive_def Let_def split: if_splits)
  have d: "isl (ActiveRecord C (Some props))
            \<and> isl (checkAgainstSchema (schemaOf C) fmempty False props)"
    if h: "distinctChildKeys (schemaOf C) \<and> schemaIn (schemaOf C) k ks = Some (Field fd)
          \<and> get (Obj props) (k # ks) = Null"
  proof -
    from h have g: "baseGet (Obj props) (k # ks) = Null" by (simp add: get_def)
    have fails: "isl (checkAgainstSchema (schemaOf C) pr init props)"
      if i: "init \<Longrightarrow> pr = props" for pr init
    proof (cases "checkAgainstSchema (schemaOf C) pr init props")
      case (Inl e)
      then show ?thesis by simp
    next
      case (Inr res)
      have "leafOutcome fd (baseGet (Obj props) (k # ks)) (baseGet (Obj res) (k # ks))"
        using top_outcome[OF Inr, of k ks fd] h i by auto
      then show ?thesis using g nomatch by (simp add: leafOutcome_def)
    qed
    have "isl (checkAgainstSchema (schemaOf C) props True (fmdrop ''__proto__'' props))"
    proof (cases "checkAgainstSchema (schemaOf C) props True (fmdrop ''__proto__'' props)")
      case (Inl e)
      then show ?thesis by simp
    next
      case (Inr res)
      have "leafOutcome fd (baseGet (Obj props) (k # ks)) (baseGet (Obj res) (k # ks))"
        using constructed_outcome[OF Inr, of k ks fd] h by simp
      then show ?thesis using g nomatch by (simp add: leafOutcome_def)
    qed
    then have "isl (ActiveRecord C (Some props))" by (rule constructed_fails)
    moreover have "isl (checkAgainstSchema (schemaOf C) fmempty False props)"
      using fails[of False fmempty] by simp
    ultimately show ?thesis by simp
  qed
  show "(get (Obj this) p = Null \<longrightarrow>
        checkPrimitive fd p this = Inl (FieldError (WrongType p (fieldIdentifier fd) Null)))
     \<and> (\<forall>q. checkPrimitive fd p this = Inl (FieldError (MissingRequiredField q))
            \<longrightarrow> get (Obj this) p = Undefined)
     \<and> (\<forall>this'. checkPrimitive fd p this = Inr this' \<and> this' \<noteq> this
            \<longrightarrow> get (Obj this) p = Undefined)
     \<and> (distinctChildKeys (schemaOf C) \<and> schemaIn (schemaOf C) k ks = Some (Field fd)
          \<and> get (Obj props) (k # ks) = Null
        \<longrightarrow> isl (ActiveRecord C (Some props))
            \<and> isl (checkAgainstSchema (schemaOf C) fmempty False props))"
    using a b c d by blast
qed

theorem null_is_wrong_type_never_absent_witness:
  "fieldIdentifier (numberFn None) \<in> {FI_string, FI_number, FI_boolean}
   \<and> get (Obj (fmupd ''floors'' Null fmempty)) [''floors''] = Null
   \<and> distinctChildKeys (schemaOf Lightbulb)
   \<and> schemaIn (schemaOf Lightbulb) ''floors'' [] = Some (Field (numberFn None))
   \<and> checkPrimitive (numberFn None) [''floors''] (fmupd ''floors'' Null fmempty)
       = Inl (FieldError (WrongType [''floors''] FI_number Null))
   \<and> isl (ActiveRecord Lightbulb (Some (fmupd ''floors'' Null fmempty)))
   \<and> map_sum message (\<lambda>r. r) (ActiveRecord Lightbulb (Some (fmupd ''floors'' Null fmempty)))
       = Inl (''Could not construct Lightbulb. The property ''
              @ [CHR 0x27] @ ''floors'' @ [CHR 0x27] @ '' is of the wrong type'')"
proof -
  have h: "fieldIdentifier (numberFn None) \<in> {FI_string, FI_number, FI_boolean}"
    "get (Obj (fmupd ''floors'' Null fmempty)) [''floors''] = Null"
    "distinctChildKeys (schemaOf Lightbulb)"
    "schemaIn (schemaOf Lightbulb) ''floors'' [] = Some (Field (numberFn None))"
    by (simp_all add: example_defs fmdrop_fmupd)
  have m: "map_sum message (\<lambda>r. r) (ActiveRecord Lightbulb (Some (fmupd ''floors'' Null fmempty)))
       = Inl (''Could not construct Lightbulb. The property ''
              @ [CHR 0x27] @ ''floors'' @ [CHR 0x27] @ '' is of the wrong type'')"
    by (simp add: example_defs fmdrop_fmupd)
  from null_is_wrong_type_never_absent[where fd = "numberFn None"
         and this = "fmupd ''floors'' Null fmempty" and p = "[''floors'']" and C = Lightbulb
         and k = "''floors''" and ks = "[]" and props = "fmupd ''floors'' Null fmempty"] h
  have "checkPrimitive (numberFn None) [''floors''] (fmupd ''floors'' Null fmempty)
       = Inl (FieldError (WrongType [''floors''] FI_number Null))
     \<and> isl (ActiveRecord Lightbulb (Some (fmupd ''floors'' Null fmempty)))"
    by simp
  then show ?thesis using h m by simp
qed

section \<open>Nested schemas\<close>

text \<open>
  C5. A nested object that the props omit is treated as the empty object and walked: the
  construction gives the same outcome as with \<open>{}\<close> in its place; every field below an
  omitted object (or omitted itself) ends with its default if it has one and absent
  otherwise, and the construction fails if such a field is required and has no default.
\<close>
theorem nested_object_omitted_is_empty:
  "distinctChildKeys (schemaOf C) \<longrightarrow>
     (\<forall>cs. schemaIn (schemaOf C) k [] = Some (Node cs) \<and> readProp props k = Undefined
        \<longrightarrow> ActiveRecord C (Some props) = ActiveRecord C (Some (fmupd k (Obj fmempty) props)))
     \<and> (\<forall>n r fd. schemaIn (schemaOf C) k (n @ r) = Some (Field fd)
                  \<and> get (Obj props) (k # n) = Undefined
        \<longrightarrow> (required fd \<and> hasDefault fd \<noteq> Some True \<longrightarrow> isl (ActiveRecord C (Some props)))
            \<and> (\<forall>rcd. ActiveRecord C (Some props) = Inr rcd
                  \<longrightarrow> get (Obj rcd) (k # n @ r)
                        = (if hasDefault fd = Some True then default_val fd else Undefined)))"
proof
  assume d: "distinctChildKeys (schemaOf C)"
  have a: "ActiveRecord C (Some props) = ActiveRecord C (Some (fmupd k (Obj fmempty) props))"
    if h: "schemaIn (schemaOf C) k [] = Some (Node cs) \<and> readProp props k = Undefined" for cs
  proof -
    let ?P = "''__proto__''"
    let ?props' = "fmupd k (Obj fmempty) props"
    from h have kS: "k \<in> fst ` set (schemaOf C)" by (auto dest: schemaIn_key)
    have "checkAgainstSchema (schemaOf C) ?props' True (fmdrop ?P ?props')
        = checkAgainstSchema (schemaOf C) ?props' True (fmupd k (Obj fmempty) (fmdrop ?P props))"
    proof (cases "k = ?P")
      case True
      then have "fmdrop ?P ?props' = fmdrop ?P props" by (simp add: fmdrop_fmupd_same)
      then show ?thesis using top_declared_overwritten[OF kS, of ?props' "Obj fmempty" "fmdrop ?P props"]
        by simp
    next
      case False
      then show ?thesis by (simp add: fmdrop_fmupd)
    qed
    also have "\<dots> = checkAgainstSchema (schemaOf C) props True (fmdrop ?P props)"
      using top_omitted_node[OF d, of k cs props "fmdrop ?P props"] h by simp
    finally have w: "checkAgainstSchema (schemaOf C) ?props' True (fmdrop ?P ?props')
        = checkAgainstSchema (schemaOf C) props True (fmdrop ?P props)" .
    have "undeclaredProp (schemaOf C) ?props' j = undeclaredProp (schemaOf C) props j" for j
      using kS by (auto simp: undeclaredProp_def)
    then have "constructorName C ?props' = constructorName C props"
      by (simp add: constructorName_def)
    then show ?thesis using w by (simp add: ActiveRecord_def split: sum.splits)
  qed
  have b: "(required fd \<and> hasDefault fd \<noteq> Some True \<longrightarrow> isl (ActiveRecord C (Some props)))
            \<and> (\<forall>rcd. ActiveRecord C (Some props) = Inr rcd
                  \<longrightarrow> get (Obj rcd) (k # n @ r)
                        = (if hasDefault fd = Some True then default_val fd else Undefined))"
    if h: "schemaIn (schemaOf C) k (n @ r) = Some (Field fd)
                  \<and> get (Obj props) (k # n) = Undefined" for n r fd
  proof -
    from h have "baseGet (Obj props) (k # n) = Undefined" by (simp add: get_def)
    then have u: "baseGet (Obj props) (k # n @ r) = Undefined"
      using baseGet_append[of "Obj props" "k # n" r] by simp
    have o: "leafOutcome fd Undefined (baseGet (Obj rcd) (k # n @ r))"
      if "checkAgainstSchema (schemaOf C) props True (fmdrop ''__proto__'' props) = Inr rcd" for rcd
      using constructed_outcome[OF that d, of k "n @ r" fd] h u by simp
    have run: "checkAgainstSchema (schemaOf C) props True (fmdrop ''__proto__'' props) = Inr rcd"
      if "ActiveRecord C (Some props) = Inr rcd" for rcd
      using that by (simp add: constructed_succeeds)
    have "isl (ActiveRecord C (Some props))" if "required fd \<and> hasDefault fd \<noteq> Some True"
    proof (cases "ActiveRecord C (Some props)")
      case (Inl e)
      then show ?thesis by simp
    next
      case (Inr rcd)
      then show ?thesis using o[OF run[OF Inr]] that by (simp add: leafOutcome_def)
    qed
    moreover have "get (Obj rcd) (k # n @ r)
                        = (if hasDefault fd = Some True then default_val fd else Undefined)"
      if "ActiveRecord C (Some props) = Inr rcd" for rcd
      using o[OF run[OF that]] by (simp add: leafOutcome_def get_def)
    ultimately show ?thesis by blast
  qed
  show "(\<forall>cs. schemaIn (schemaOf C) k [] = Some (Node cs) \<and> readProp props k = Undefined
        \<longrightarrow> ActiveRecord C (Some props) = ActiveRecord C (Some (fmupd k (Obj fmempty) props)))
     \<and> (\<forall>n r fd. schemaIn (schemaOf C) k (n @ r) = Some (Field fd)
                  \<and> get (Obj props) (k # n) = Undefined
        \<longrightarrow> (required fd \<and> hasDefault fd \<noteq> Some True \<longrightarrow> isl (ActiveRecord C (Some props)))
            \<and> (\<forall>rcd. ActiveRecord C (Some props) = Inr rcd
                  \<longrightarrow> get (Obj rcd) (k # n @ r)
                        = (if hasDefault fd = Some True then default_val fd else Undefined)))"
    using a b by blast
qed

theorem nested_object_omitted_is_empty_witness:
  "distinctChildKeys (schemaOf Venue)
   \<and> schemaIn (schemaOf Venue) ''hours'' ([] @ [''openingTime'']) = Some (Field (numberFn None))
   \<and> readProp (fmupd ''name'' (Str ''TechHub'') fmempty) ''hours'' = Undefined
   \<and> required (numberFn None) \<and> hasDefault (numberFn None) \<noteq> Some True
   \<and> ActiveRecord Venue (Some (fmupd ''name'' (Str ''TechHub'') fmempty))
       = ActiveRecord Venue (Some (fmupd ''hours'' (Obj fmempty) (fmupd ''name'' (Str ''TechHub'') fmempty)))
   \<and> ActiveRecord Venue (Some (fmupd ''name'' (Str ''TechHub'') fmempty))
       = Inl (ActiveClassError ''Could not construct Venue''
                (FieldError (MissingRequiredField [''hours'', ''openingTime''])))
   \<and> (\<exists>rcd. ActiveRecord Venue (Some (fmupd ''name'' (Str ''WeWork'')
                (fmupd ''hours'' (Obj (fmupd ''openingTime'' (Num 4) fmempty)) fmempty))) = Inr rcd
          \<and> get (Obj rcd) [''hours'', ''openingTime''] = Num 4
          \<and> get (Obj rcd) [''hours'', ''closingTime''] = Num 20
          \<and> get (Obj rcd) [''status''] = Obj fmempty)"
proof -
  let ?p1 = "fmupd ''name'' (Str ''TechHub'') fmempty"
  let ?p2 = "fmupd ''name'' (Str ''WeWork'')
                (fmupd ''hours'' (Obj (fmupd ''openingTime'' (Num 4) fmempty)) fmempty)"
  let ?closing = "numberFn (Some \<lparr> default_opt = Num 20, required_opt = None, optional_opt = None \<rparr>)"
  have d: "distinctChildKeys (schemaOf Venue)" by (simp add: example_defs fmdrop_fmupd)
  have l: "schemaIn (schemaOf Venue) ''hours'' ([] @ [''openingTime'']) = Some (Field (numberFn None))"
    "schemaIn (schemaOf Venue) ''hours'' [] = Some (Node
         [(''openingTime'', Field (numberFn None)), (''closingTime'', Field ?closing)])"
    "schemaIn (schemaOf Venue) ''hours'' ([''closingTime''] @ []) = Some (Field ?closing)"
    by (simp_all add: example_defs fmdrop_fmupd)
  have u: "readProp ?p1 ''hours'' = Undefined" "get (Obj ?p1) (''hours'' # []) = Undefined"
    "get (Obj ?p2) (''hours'' # [''closingTime'']) = Undefined"
    by (simp_all add: example_defs fmdrop_fmupd)
  have r: "required (numberFn None) \<and> hasDefault (numberFn None) \<noteq> Some True" by simp
  have e1: "ActiveRecord Venue (Some ?p1)
       = Inl (ActiveClassError ''Could not construct Venue''
                (FieldError (MissingRequiredField [''hours'', ''openingTime''])))"
    by (simp add: example_defs fmdrop_fmupd)
  obtain rcd where e2: "ActiveRecord Venue (Some ?p2) = Inr rcd"
     and g: "get (Obj rcd) [''hours'', ''openingTime''] = Num 4" "get (Obj rcd) [''status''] = Obj fmempty"
    by (simp add: example_defs fmdrop_fmupd)
  from nested_object_omitted_is_empty[where C = Venue and k = "''hours''" and props = ?p1] d l u r
  have t1: "ActiveRecord Venue (Some ?p1) = ActiveRecord Venue (Some (fmupd ''hours'' (Obj fmempty) ?p1))"
    by blast
  from nested_object_omitted_is_empty[where C = Venue and k = "''hours''" and props = ?p2] d l(3) u(3) e2
  have "get (Obj rcd) (''hours'' # [''closingTime''] @ [])
          = (if hasDefault ?closing = Some True then default_val ?closing else Undefined)"
    by blast
  then have t2: "get (Obj rcd) [''hours'', ''closingTime''] = Num 20" by (simp add: Let_def)
  show ?thesis using d l(1) u(1) r t1 e1 e2 g t2 by blast
qed

section \<open>Enum defaults\<close>

text \<open>
  C6. An enum field declared with a default outside its allowed values fails at
  declaration time. \<open>enumr\<close> throws nothing: for \<open>['salty', 'sweet']\<close> with the default
  \<open>'salt'\<close> it returns a descriptor with that default.
\<close>

theorem enumr_accepts_default_outside_vals:
  "enumr [Str ''salty'', Str ''sweet'']
     (Some \<lparr> default_opt = Str ''salt'', required_opt = None, optional_opt = None \<rparr>)
   = FieldDefinition FI_enum True (Some True) (Str ''salt'') None None"
  by simp

section \<open>Errors leaving the constructor\<close>

text \<open>
  C7. Every error thrown in the schema walk during construction leaves the constructor
  as one \<open>ActiveClassError\<close> that names the constructing class, and no raw exception
  escapes. The catch block reads \<open>this.constructor.name\<close> from the record that the props
  were assigned to: with the props \<open>{ constructor: null }\<close> the \<open>TypeError\<close> of that read
  leaves the constructor in place of the user-facing error, with
  \<open>{ constructor: { name: 'Evil' } }\<close> the error names \<open>Evil\<close>; with \<open>{}\<close> it names
  \<open>Lightbulb\<close>.
\<close>

theorem constructor_prop_breaks_wrapping:
  "ActiveRecord Lightbulb (Some (fmupd ''constructor'' Null fmempty)) = Inl (TypeError Null)
   \<and> ActiveRecord Lightbulb
        (Some (fmupd ''constructor'' (Obj (fmupd ''name'' (Str ''Evil'') fmempty)) fmempty))
       = Inl (ActiveClassError ''Could not construct Evil''
                (FieldError (MissingRequiredField [''floors''])))
   \<and> ActiveRecord Lightbulb (Some fmempty)
       = Inl (ActiveClassError ''Could not construct Lightbulb''
                (FieldError (MissingRequiredField [''floors''])))"
  by (simp add: example_defs fmdrop_fmupd)

section \<open>Class name and key\<close>

text \<open>
  C8. For every class made with a non-empty class name \<open>N\<close>, the class's name is \<open>N\<close> and
  its \<open>key\<close> is the plural of \<open>N\<close>; with an empty or omitted class name the name stays
  \<open>ActiveRecord\<close>; the key is computed from the current name on each access.
\<close>

theorem class_name_and_key:
  "(N \<noteq> [] \<longrightarrow>
      name (makeActiveClassConstructor schema (Some N)) = N
      \<and> key plural (makeActiveClassConstructor schema (Some N)) = plural N)
   \<and> name (makeActiveClassConstructor schema (Some [])) = ''ActiveRecord''
   \<and> name (makeActiveClassConstructor schema None) = ''ActiveRecord''
   \<and> key plural (C\<lparr> name := N' \<rparr>) = plural N'"
  by (simp add: makeActiveClassConstructor_def key_def)

theorem class_name_and_key_witness:
  "''Car'' \<noteq> []
   \<and> name (makeActiveClassConstructor buildingSchema (Some ''Car'')) = ''Car''
   \<and> key (\<lambda>n. n @ ''s'') (makeActiveClassConstructor buildingSchema (Some ''Car'')) = ''Cars''
   \<and> key (\<lambda>n. n @ ''s'') ((makeActiveClassConstructor buildingSchema (Some ''Car''))\<lparr> name := ''Van'' \<rparr>) = ''Vans''"
  using class_name_and_key[where N = "''Car''" and schema = buildingSchema
          and plural = "\<lambda>n. n @ ''s''"
          and C = "makeActiveClassConstructor buildingSchema (Some ''Car'')" and N' = "''Van''"]
  by simp

text \<open>
  Stated for every class name, the property fails at the empty one: the name is then
  \<open>ActiveRecord\<close>, not the empty string.
\<close>

theorem class_name_empty_counterexample:
  "\<not> (name (makeActiveClassConstructor [] (Some [])) = [])"
  by (simp add: makeActiveClassConstructor_def)

section \<open>Props the schema does not declare\<close>

text \<open>
  C9. A prop whose key the schema does not declare, other than \<open>__proto__\<close>, is neither
  rejected nor removed: constructing with it succeeds exactly when constructing without
  it does, and the record is then the one without it, holding the prop unchanged. Unless
  the key is \<open>constructor\<close>, a failing construction also throws the same error.
\<close>

theorem undeclared_props_kept:
  "k \<notin> fst ` set (schemaOf C) \<and> k \<noteq> ''__proto__'' \<longrightarrow>
     isl (ActiveRecord C (Some (fmupd k x props))) = isl (ActiveRecord C (Some props))
     \<and> (\<forall>rcd. ActiveRecord C (Some props) = Inr rcd
           \<longrightarrow> ActiveRecord C (Some (fmupd k x props)) = Inr (fmupd k x rcd))
     \<and> (\<forall>rcd. ActiveRecord C (Some (fmupd k x props)) = Inr rcd \<longrightarrow> fmlookup rcd k = Some x)
     \<and> (k \<noteq> ''constructor'' \<longrightarrow>
          ActiveRecord C (Some (fmupd k x props))
            = map_sum (\<lambda>err. err) (fmupd k x) (ActiveRecord C (Some props)))"
proof
  assume h: "k \<notin> fst ` set (schemaOf C) \<and> k \<noteq> ''__proto__''"
  let ?P = "''__proto__''"
  let ?W = "checkAgainstSchema (schemaOf C) props True (fmdrop ?P props)"
  let ?W' = "checkAgainstSchema (schemaOf C) (fmupd k x props) True (fmdrop ?P (fmupd k x props))"
  have "fmdrop ?P (fmupd k x props) = fmupd k x (fmdrop ?P props)"
    using h by (auto simp: fmdrop_fmupd)
  then have w: "?W' = map_sum (\<lambda>err. err) (fmupd k x) ?W"
    using top_commute[of k "schemaOf C" x props True "fmdrop ?P props"] h by simp
  have i: "isl (ActiveRecord C (Some (fmupd k x props))) = isl (ActiveRecord C (Some props))"
    using w by (cases ?W) (simp_all add: constructed_isl)
  have s: "ActiveRecord C (Some (fmupd k x props)) = Inr (fmupd k x rcd)"
    if "ActiveRecord C (Some props) = Inr rcd" for rcd
    using that w by (simp add: constructed_succeeds)
  have p: "fmlookup rcd k = Some x"
    if "ActiveRecord C (Some (fmupd k x props)) = Inr rcd" for rcd
    using that w by (cases ?W) (auto simp: constructed_succeeds)
  have e: "ActiveRecord C (Some (fmupd k x props))
            = map_sum (\<lambda>err. err) (fmupd k x) (ActiveRecord C (Some props))"
    if c: "k \<noteq> ''constructor''"
  proof -
    have "undeclaredProp (schemaOf C) (fmupd k x props) j = undeclaredProp (schemaOf C) props j"
      if "j = ''constructor'' \<or> j = ?P" for j
      using that c h by (auto simp: undeclaredProp_def)
    then have "constructorName C (fmupd k x props) = constructorName C props"
      by (simp add: constructorName_def)
    then show ?thesis using w
      by (cases ?W; cases "constructorName C props") (simp_all add: ActiveRecord_def)
  qed
  show "isl (ActiveRecord C (Some (fmupd k x props))) = isl (ActiveRecord C (Some props))
     \<and> (\<forall>rcd. ActiveRecord C (Some props) = Inr rcd
           \<longrightarrow> ActiveRecord C (Some (fmupd k x props)) = Inr (fmupd k x rcd))
     \<and> (\<forall>rcd. ActiveRecord C (Some (fmupd k x props)) = Inr rcd \<longrightarrow> fmlookup rcd k = Some x)
     \<and> (k \<noteq> ''constructor'' \<longrightarrow>
          ActiveRecord C (Some (fmupd k x props))
            = map_sum (\<lambda>err. err) (fmupd k x) (ActiveRecord C (Some props)))"
    using i s p e by blast
qed

theorem undeclared_props_kept_witness:
  "''randomProp'' \<notin> fst ` set (schemaOf Lightbulb) \<and> ''randomProp'' \<noteq> ''__proto__''
   \<and> ActiveRecord Lightbulb (Some (fmupd ''floors'' (Num 4) fmempty))
       = Inr (fmupd ''floors'' (Num 4) fmempty)
   \<and> ActiveRecord Lightbulb (Some (fmupd ''randomProp'' (Num 9) (fmupd ''floors'' (Num 4) fmempty)))
       = Inr (fmupd ''randomProp'' (Num 9) (fmupd ''floors'' (Num 4) fmempty))"
proof -
  have k: "''randomProp'' \<notin> fst ` set (schemaOf Lightbulb) \<and> ''randomProp'' \<noteq> ''__proto__''"
    by (simp add: example_defs)
  have base: "ActiveRecord Lightbulb (Some (fmupd ''floors'' (Num 4) fmempty))
       = Inr (fmupd ''floors'' (Num 4) fmempty)"
    by (simp add: example_defs fmdrop_fmupd)
  from undeclared_props_kept[where C = Lightbulb and k = "''randomProp''" and x = "Num 9"
         and props = "fmupd ''floors'' (Num 4) fmempty"] k base
  show ?thesis by simp
qed

text \<open>
  Stated for every undeclared key, the property fails at \<open>__proto__\<close>:
  \<open>Object.assign\<close> hands it to the setter of the prototype, and the record built has no
  such property.
\<close>

theorem proto_prop_not_kept_counterexample:
  "ActiveRecord Lightbulb (Some (fmupd ''__proto__'' (Obj fmempty) (fmupd ''floors'' (Num 4) fmempty)))
     = Inr (fmupd ''floors'' (Num 4) fmempty)
   \<and> fmlookup (fmupd ''floors'' (Num 4) fmempty) ''__proto__'' \<noteq> Some (Obj fmempty)"
  by (simp add: example_defs fmdrop_fmupd)

section \<open>The constructor without an argument\<close>

text \<open>
  C10. Calling the constructor without an argument gives the outcome of calling it with
  the empty object, for every class; when the schema has a required field without
  default both calls fail.
\<close>
theorem constructor_props_default_empty:
  "ActiveRecord C None = ActiveRecord C (Some fmempty)
   \<and> (distinctChildKeys (schemaOf C) \<and> schemaIn (schemaOf C) k ks = Some (Field fd)
        \<and> required fd \<and> hasDefault fd \<noteq> Some True
      \<longrightarrow> isl (ActiveRecord C None) \<and> isl (ActiveRecord C (Some fmempty)))"
proof -
  have eq: "ActiveRecord C None = ActiveRecord C (Some fmempty)"
    by (simp add: ActiveRecord_def)
  have "isl (ActiveRecord C (Some fmempty))"
    if "distinctChildKeys (schemaOf C)" "schemaIn (schemaOf C) k ks = Some (Field fd)"
       "required fd" "hasDefault fd \<noteq> Some True"
  proof -
    have "isl (checkAgainstSchema (schemaOf C) fmempty True fmempty)"
      using top_required_missing[OF that(1,2) _ that(3,4), of fmempty True fmempty] by simp
    then have "isl (checkAgainstSchema (schemaOf C) fmempty True (fmdrop ''__proto__'' fmempty))"
      by simp
    then show ?thesis by (rule constructed_fails)
  qed
  then show ?thesis using eq by simp
qed

theorem constructor_props_default_empty_witness:
  "distinctChildKeys (schemaOf Lightbulb)
   \<and> schemaIn (schemaOf Lightbulb) ''floors'' [] = Some (Field (numberFn None))
   \<and> required (numberFn None) \<and> hasDefault (numberFn None) \<noteq> Some True
   \<and> ActiveRecord Lightbulb None = ActiveRecord Lightbulb (Some fmempty)
   \<and> ActiveRecord Lightbulb None
       = Inl (ActiveClassError ''Could not construct Lightbulb''
                (FieldError (MissingRequiredField [''floors''])))
   \<and> map_sum message (\<lambda>r. r) (ActiveRecord Lightbulb (Some fmempty))
       = Inl (''Could not construct Lightbulb. The required property ''
              @ [CHR 0x27] @ ''floors'' @ [CHR 0x27] @ '' is missing'')"
  using constructor_props_default_empty[where C = Lightbulb and k = "''floors''" and ks = "[]"
          and fd = "numberFn None"]
  by (simp add: example_defs fmdrop_fmupd)

end
